theory Spec2Isabelle
  imports Main "HOL-Library.Sublist"
begin

section \<open>Text: Python strings restricted to code points below 256\<close>

text \<open>
  A Python \<open>str\<close> is a sequence of Unicode code points. The model covers the strings whose
  code points are below 256: a \<^typ>\<open>char\<close> is such a code point, read by \<^const>\<open>of_char\<close>.
  The character classes below are those of the Unicode-aware \<open>re\<close> module and of the
  \<open>str\<close> methods on that range: \<open>\d\<close> is the decimal digits, \<open>\w\<close> is the alphanumeric
  code points and the underscore, \<open>\s\<close> and \<open>str.split()\<close> use the same whitespace set, and
  \<open>str.lower()\<close> maps one code point to one code point.
\<close>

definition code_point :: "char \<Rightarrow> nat" where
  "code_point c = of_char c"

definition is_digit :: "char \<Rightarrow> bool" where
  "is_digit c = (let n = code_point c in 0x30 \<le> n \<and> n \<le> 0x39)"

definition is_word :: "char \<Rightarrow> bool" where
  "is_word c =
     (let n = code_point c in
        (0x30 \<le> n \<and> n \<le> 0x39) \<or> (0x41 \<le> n \<and> n \<le> 0x5A) \<or> n = 0x5F \<or>
        (0x61 \<le> n \<and> n \<le> 0x7A) \<or> n = 0xAA \<or> n = 0xB2 \<or> n = 0xB3 \<or> n = 0xB5 \<or>
        n = 0xB9 \<or> n = 0xBA \<or> (0xBC \<le> n \<and> n \<le> 0xBE) \<or> (0xC0 \<le> n \<and> n \<le> 0xD6) \<or>
        (0xD8 \<le> n \<and> n \<le> 0xF6) \<or> 0xF8 \<le> n)"

definition is_space :: "char \<Rightarrow> bool" where
  "is_space c =
     (let n = code_point c in
        (0x09 \<le> n \<and> n \<le> 0x0D) \<or> (0x1C \<le> n \<and> n \<le> 0x20) \<or> n = 0x85 \<or> n = 0xA0)"

definition lower_char :: "char \<Rightarrow> char" where
  "lower_char c =
     (let n = code_point c in
        if (0x41 \<le> n \<and> n \<le> 0x5A) \<or> (0xC0 \<le> n \<and> n \<le> 0xD6) \<or> (0xD8 \<le> n \<and> n \<le> 0xDE)
        then char_of (n + 0x20) else c)"

text \<open>\<open>s.lower()\<close>\<close>

definition lower :: "string \<Rightarrow> string" where
  "lower s = map lower_char s"

section \<open>\<open>extract_year\<close>\<close>

text \<open>
  \<open>re.search(r'\b(19|20)\d{2}\b', text)\<close>: the pattern is tried at every position from the
  left. \<open>\b\<close> holds between two positions exactly one of which is a word character, the
  outside of the text counting as a non-word character.
\<close>

definition word_at :: "char option \<Rightarrow> bool" where
  "word_at p = (case p of None \<Rightarrow> False | Some c \<Rightarrow> is_word c)"

definition word_boundary :: "char option \<Rightarrow> char option \<Rightarrow> bool" where
  "word_boundary p n = (word_at p \<noteq> word_at n)"

text \<open>
  One attempt of the pattern at the start of \<open>s\<close>, where \<open>p\<close> is the character before it
  (\<open>None\<close> at the start of the text).
\<close>

fun year_match_at :: "char option \<Rightarrow> string \<Rightarrow> bool" where
  "year_match_at p (a # b # c # d # rest) =
     (word_boundary p (Some a) \<and>
      ((a = CHR ''1'' \<and> b = CHR ''9'') \<or> (a = CHR ''2'' \<and> b = CHR ''0'')) \<and>
      is_digit c \<and> is_digit d \<and>
      word_boundary (Some d) (case rest of [] \<Rightarrow> None | e # _ \<Rightarrow> Some e))"
| "year_match_at p _ = False"

text \<open>The scan of \<open>re.search\<close>; the result is \<open>match.group(0)\<close> of the leftmost match.\<close>

fun year_search :: "char option \<Rightarrow> string \<Rightarrow> string option" where
  "year_search p [] = None"
| "year_search p (c # cs) =
     (if year_match_at p (c # cs) then Some (take 4 (c # cs)) else year_search (Some c) cs)"

definition extract_year :: "string \<Rightarrow> string" where
  "extract_year text = (case year_search None text of Some m \<Rightarrow> m | None \<Rightarrow> ''n.d.'')"

text \<open>
  The rule in the words of the specification: position \<open>i\<close> of the text starts a 4-digit
  token beginning with 19 or 20, that is, four such characters with no word character
  directly before or after them.
\<close>

definition is_year_token :: "string \<Rightarrow> nat \<Rightarrow> bool" where
  "is_year_token t i =
     (i + 4 \<le> length t \<and>
      (take 2 (drop i t) = ''19'' \<or> take 2 (drop i t) = ''20'') \<and>
      is_digit (t ! (i + 2)) \<and> is_digit (t ! (i + 3)) \<and>
      (0 < i \<longrightarrow> \<not> is_word (t ! (i - 1))) \<and>
      (i + 4 < length t \<longrightarrow> \<not> is_word (t ! (i + 4))))"

section \<open>Python values, dictionaries and exceptions\<close>

text \<open>
  The values a publication dictionary holds: text, integers (the citation count of the
  search API) and \<open>None\<close>. A dictionary is a partial map from keys to values.
\<close>

datatype pyval = PStr string | PInt int | PNone

type_synonym pub = "string \<rightharpoonup> pyval"

text \<open>
  The only exception the renderer can raise on these values: a string method called on a
  value that is not a string. The argument is the name of the missing attribute.
\<close>

datatype error = AttributeError string

text \<open>\<open>d.get(key, default)\<close>\<close>

definition get :: "pub \<Rightarrow> string \<Rightarrow> pyval \<Rightarrow> pyval" where
  "get d key dflt = (case d key of Some v \<Rightarrow> v | None \<Rightarrow> dflt)"

text \<open>Truthiness, as tested by \<open>if venue:\<close>, \<open>if citations:\<close> and the like.\<close>

fun truthy :: "pyval \<Rightarrow> bool" where
  "truthy (PStr s) = (s \<noteq> [])"
| "truthy (PInt n) = (n \<noteq> 0)"
| "truthy PNone = False"

text \<open>\<open>str(n)\<close> of an integer: decimal digits, with a minus sign for a negative number.\<close>

definition digit_char :: "nat \<Rightarrow> char" where
  "digit_char d = char_of (0x30 + d)"

function str_nat :: "nat \<Rightarrow> string" where
  "str_nat n = (if n < 10 then [digit_char n] else str_nat (n div 10) @ [digit_char (n mod 10)])"
  by pat_completeness auto
termination
  by (relation "measure id") auto

declare str_nat.simps [simp del]

definition str_int :: "int \<Rightarrow> string" where
  "str_int i = (if i < 0 then CHR ''-'' # str_nat (nat (- i)) else str_nat (nat i))"

text \<open>\<open>str(v)\<close>, also the conversion an f-string applies to \<open>{v}\<close>.\<close>

fun str :: "pyval \<Rightarrow> string" where
  "str (PStr s) = s"
| "str (PInt n) = str_int n"
| "str PNone = ''None''"

text \<open>\<open>s.replace('{', '').replace('}', '')\<close> on a string.\<close>

definition strip_braces :: "string \<Rightarrow> string" where
  "strip_braces s = filter (\<lambda>c. c \<noteq> CHR ''}'') (filter (\<lambda>c. c \<noteq> CHR ''{'') s)"

text \<open>The same call on any value: a value that is not a string has no \<open>replace\<close>.\<close>

fun replace_braces :: "pyval \<Rightarrow> error + string" where
  "replace_braces (PStr s) = Inr (strip_braces s)"
| "replace_braces _ = Inl (AttributeError ''replace'')"

text \<open>
  \<open>s.split()\<close>: the maximal runs of non-whitespace characters, in order. The first
  argument is the run being read.
\<close>

fun split_from :: "string \<Rightarrow> string \<Rightarrow> string list" where
  "split_from w [] = (if w = [] then [] else [w])"
| "split_from w (c # cs) =
     (if is_space c then (if w = [] then split_from [] cs else w # split_from [] cs)
      else split_from (w @ [c]) cs)"

definition split :: "string \<Rightarrow> string list" where
  "split s = split_from [] s"

text \<open>\<open>sep.join(xs)\<close>\<close>

fun join :: "string \<Rightarrow> string list \<Rightarrow> string" where
  "join sep [] = []"
| "join sep [x] = x"
| "join sep (x # y # ys) = x @ sep @ join sep (y # ys)"

section \<open>\<open>sanitize_bibtex_key\<close>\<close>

definition sanitize_bibtex_key :: "string \<Rightarrow> string \<Rightarrow> string \<Rightarrow> string" where
  "sanitize_bibtex_key ttl yr author_last =
     (let words = split (filter (\<lambda>c. is_word c \<or> is_space c) ttl);
          first_word = (case words of [] \<Rightarrow> ''unknown'' | w # _ \<Rightarrow> lower w);
          author_clean = lower (filter is_word author_last)
      in author_clean @ yr @ first_word)"

section \<open>\<open>publication_to_bibtex\<close>\<close>

text \<open>The values read from the dictionary, with their defaults (the first block of the function).\<close>

record normalized =
  title_of :: pyval
  authors_of :: pyval
  year_of :: string
  venue_of :: pyval
  snippet_of :: pyval
  citations_of :: pyval
  link_of :: pyval

definition normalize_record :: "pub \<Rightarrow> normalized" where
  "normalize_record p =
     \<lparr> title_of = get p ''title'' (PStr ''Unknown Title''),
       authors_of = get p ''authors'' (PStr ''Unknown Author''),
       year_of = str (get p ''year'' (PStr ''n.d.'')),
       venue_of = get p ''venue'' (get p ''publication'' (PStr [])),
       snippet_of = get p ''snippet'' (PStr []),
       citations_of = get p ''citations'' (PInt 0),
       link_of = get p ''link'' (PStr []) \<rparr>"

text \<open>"Clean up data": title first, then authors.\<close>

definition cleanup :: "normalized \<Rightarrow> error + (string \<times> string)" where
  "cleanup r =
     (case replace_braces (title_of r) of
        Inl e \<Rightarrow> Inl e
      | Inr ttl \<Rightarrow>
          (case replace_braces (authors_of r) of
             Inl e \<Rightarrow> Inl e
           | Inr authors \<Rightarrow> Inr (ttl, authors)))"

text \<open>"Determine entry type". \<open>x in venue_lower\<close> is the test for a contiguous substring.\<close>

definition entry_type_of :: "pyval \<Rightarrow> error + string" where
  "entry_type_of venue =
     (if truthy venue then
        (case venue of
           PStr v \<Rightarrow>
             (let venue_lower = lower v in
                if list_ex (\<lambda>x. sublist x venue_lower)
                     [''conference'', ''proceedings'', ''symposium'', ''workshop'']
                then Inr ''inproceedings''
                else if list_ex (\<lambda>x. sublist x venue_lower)
                     [''journal'', ''transactions'', ''letters'']
                then Inr ''article''
                else Inr ''article'')
         | _ \<Rightarrow> Inl (AttributeError ''lower''))
      else Inr ''misc'')"

text \<open>"Generate unique key", from the cleaned title and authors.\<close>

definition author_last_of :: "string \<Rightarrow> string" where
  "author_last_of authors =
     (let author_parts =
            (if authors \<noteq> [] then split (takeWhile (\<lambda>c. c \<noteq> CHR '','') authors)
             else [''unknown''])
      in if author_parts \<noteq> [] then last author_parts else ''unknown'')"

definition bibtex_key :: "string \<Rightarrow> string \<Rightarrow> string \<Rightarrow> int \<Rightarrow> string" where
  "bibtex_key ttl yr authors index =
     sanitize_bibtex_key ttl yr (author_last_of authors) @ ''_'' @ str_int index"

text \<open>"Build BibTeX entry": the optional lines, each a list of no line or one line.\<close>

definition venue_lines :: "string \<Rightarrow> pyval \<Rightarrow> string list" where
  "venue_lines entry_type venue =
     (if truthy venue then
        (if entry_type = ''inproceedings'' then [''  booktitle = {'' @ str venue @ ''},'']
         else [''  journal = {'' @ str venue @ ''},''])
      else [])"

definition snippet_lines :: "pyval \<Rightarrow> error + string list" where
  "snippet_lines snippet =
     (if truthy snippet then
        (case replace_braces snippet of
           Inl e \<Rightarrow> Inl e
         | Inr snippet_clean \<Rightarrow> Inr [''  abstract = {'' @ snippet_clean @ ''},''])
      else Inr [])"

definition citations_lines :: "pyval \<Rightarrow> string list" where
  "citations_lines citations =
     (if truthy citations then [''  note = {Cited by '' @ str citations @ ''},''] else [])"

definition link_lines :: "pyval \<Rightarrow> string list" where
  "link_lines link = (if truthy link then [''  url = {'' @ str link @ ''},''] else [])"

text \<open>The list \<open>lines\<close> at the end of the function, or the exception raised on the way.\<close>

definition publication_lines :: "pub \<Rightarrow> int \<Rightarrow> error + string list" where
  "publication_lines p index =
     (let r = normalize_record p in
      case cleanup r of
        Inl e \<Rightarrow> Inl e
      | Inr (ttl, authors) \<Rightarrow>
          (case entry_type_of (venue_of r) of
             Inl e \<Rightarrow> Inl e
           | Inr entry_type \<Rightarrow>
               (case snippet_lines (snippet_of r) of
                  Inl e \<Rightarrow> Inl e
                | Inr abstract \<Rightarrow>
                    Inr ([''@'' @ entry_type @ ''{'' @ bibtex_key ttl (year_of r) authors index @ '','',
                          ''  title = {'' @ ttl @ ''},'',
                          ''  author = {'' @ authors @ ''},'',
                          ''  year = {'' @ year_of r @ ''},'']
                         @ venue_lines entry_type (venue_of r)
                         @ abstract
                         @ citations_lines (citations_of r)
                         @ link_lines (link_of r)
                         @ [''}'']))))"

definition publication_to_bibtex :: "pub \<Rightarrow> int \<Rightarrow> error + string" where
  "publication_to_bibtex p index =
     (case publication_lines p index of
        Inl e \<Rightarrow> Inl e
      | Inr lines \<Rightarrow> Inr (join [CHR 0x0A] lines))"

section \<open>\<open>generate_bibtex_file\<close>\<close>

text \<open>
  What the run prints is kept as a list of events, one per message, and the file system as
  a map from file names to contents. The two search functions are parameters: they return
  the list of publications found for an author, possibly empty. Opening the output file is
  taken to succeed.
\<close>

datatype event =
    Banner
  | NoKeyNotice
  | NoPublicationsFound
  | Found nat
  | CouldNotConvert nat error
  | Generated nat string

record world =
  printed :: "event list"
  files :: "string \<rightharpoonup> string"

text \<open>
  The conversion loop over \<open>enumerate(publications)\<close>: the state is the list of entries
  and the messages printed so far.
\<close>

fun convert_loop :: "(nat \<times> pub) list \<Rightarrow> string list \<times> event list \<Rightarrow> string list \<times> event list" where
  "convert_loop [] st = st"
| "convert_loop ((i, p) # rest) (bibtex_entries, out) =
     (case publication_to_bibtex p (int i) of
        Inr entry \<Rightarrow> convert_loop rest (bibtex_entries @ [entry], out)
      | Inl e \<Rightarrow> convert_loop rest (bibtex_entries, out @ [CouldNotConvert (i + 1) e]))"

definition file_content :: "string \<Rightarrow> string list \<Rightarrow> string" where
  "file_content author_name bibtex_entries =
     ''% BibTeX file generated from Google Scholar'' @ [CHR 0x0A] @
     ''% Author: '' @ author_name @ [CHR 0x0A] @
     ''% Total entries: '' @ str_nat (length bibtex_entries) @ [CHR 0x0A] @
     ''% Generated by: scholar_to_bibtex.py'' @ [CHR 0x0A, CHR 0x0A] @
     join [CHR 0x0A, CHR 0x0A] bibtex_entries"

definition generate_bibtex_file ::
  "(string \<Rightarrow> string \<Rightarrow> nat \<Rightarrow> pub list) \<Rightarrow> (string \<Rightarrow> nat \<Rightarrow> pub list) \<Rightarrow>
   string \<Rightarrow> string \<Rightarrow> nat \<Rightarrow> string option \<Rightarrow> world \<Rightarrow> world" where
  "generate_bibtex_file search_scholar_serpapi search_scholar_direct
       author_name output_file max_results api_key w =
     (let out0 = printed w @ [Banner];
          (publications, out1) =
            (case api_key of
               Some k \<Rightarrow>
                 (if k \<noteq> [] then (search_scholar_serpapi author_name k max_results, out0)
                  else (search_scholar_direct author_name max_results, out0 @ [NoKeyNotice]))
             | None \<Rightarrow> (search_scholar_direct author_name max_results, out0 @ [NoKeyNotice]))
      in if publications = [] then w\<lparr>printed := out1 @ [NoPublicationsFound]\<rparr>
         else
           (let (bibtex_entries, out2) =
                  convert_loop (enumerate 0 publications)
                    ([], out1 @ [Found (length publications)])
            in w\<lparr>printed := out2 @ [Generated (length bibtex_entries) output_file],
                 files := (files w)(output_file \<mapsto> file_content author_name bibtex_entries)\<rparr>))"

text \<open>
  The entries of a batch in the words of the specification: every record that renders
  contributes its entry, rendered at its own position in the input, and a record that
  fails contributes nothing.
\<close>

definition rendered_entries :: "pub list \<Rightarrow> string list" where
  "rendered_entries publications =
     concat (map (\<lambda>(i, p). case publication_to_bibtex p (int i) of
                               Inr entry \<Rightarrow> [entry]
                             | Inl e \<Rightarrow> [])
                 (enumerate 0 publications))"

text \<open>The diagnostics of a batch: one message for every record that fails, in order.\<close>

definition diagnostics :: "pub list \<Rightarrow> event list" where
  "diagnostics publications =
     concat (map (\<lambda>(i, p). case publication_to_bibtex p (int i) of
                               Inr entry \<Rightarrow> []
                             | Inl e \<Rightarrow> [CouldNotConvert (i + 1) e])
                 (enumerate 0 publications))"

section \<open>The shape of a rendered entry\<close>

lemma replace_braces_Inr: "replace_braces v = Inr s \<Longrightarrow> \<exists>x. v = PStr x \<and> s = strip_braces x"
  by (cases v) auto

lemma cleanup_Inr:
  assumes "cleanup r = Inr (ttl, authors)"
  shows "\<exists>t a. title_of r = PStr t \<and> authors_of r = PStr a \<and>
           ttl = strip_braces t \<and> authors = strip_braces a"
  using assms
  by (auto simp: cleanup_def split: sum.splits dest!: replace_braces_Inr)

lemma snippet_lines_Inr:
  assumes "snippet_lines s = Inr ab"
  shows "(\<not> truthy s \<and> ab = []) \<or>
         (\<exists>x. s = PStr x \<and> x \<noteq> [] \<and> ab = [''  abstract = {'' @ strip_braces x @ ''},''])"
  using assms
  by (cases s) (auto simp: snippet_lines_def split: if_splits)

text \<open>A record that renders has a textual title and textual authors, and these lines.\<close>

lemma publication_lines_Inr:
  assumes "publication_lines p i = Inr ls"
  shows "\<exists>t a e ab.
           title_of (normalize_record p) = PStr t \<and> authors_of (normalize_record p) = PStr a \<and>
           entry_type_of (venue_of (normalize_record p)) = Inr e \<and>
           snippet_lines (snippet_of (normalize_record p)) = Inr ab \<and>
           ls = [''@'' @ e @ ''{'' @
                   bibtex_key (strip_braces t) (year_of (normalize_record p)) (strip_braces a) i @ '','',
                 ''  title = {'' @ strip_braces t @ ''},'',
                 ''  author = {'' @ strip_braces a @ ''},'',
                 ''  year = {'' @ year_of (normalize_record p) @ ''},'']
                @ venue_lines e (venue_of (normalize_record p))
                @ ab
                @ citations_lines (citations_of (normalize_record p))
                @ link_lines (link_of (normalize_record p))
                @ [''}'']"
proof -
  from assms obtain ttl authors where c: "cleanup (normalize_record p) = Inr (ttl, authors)"
    by (auto simp: publication_lines_def Let_def split: sum.splits)
  from assms c obtain e where e: "entry_type_of (venue_of (normalize_record p)) = Inr e"
    by (auto simp: publication_lines_def Let_def split: sum.splits)
  from assms c e obtain ab where ab: "snippet_lines (snippet_of (normalize_record p)) = Inr ab"
    by (auto simp: publication_lines_def Let_def split: sum.splits)
  from cleanup_Inr [OF c] obtain t a where
    ta: "title_of (normalize_record p) = PStr t" "authors_of (normalize_record p) = PStr a"
      "ttl = strip_braces t" "authors = strip_braces a"
    by blast
  from assms c e ab ta show ?thesis
    by (simp add: publication_lines_def Let_def)
qed

lemma strip_braces_free: "CHR ''{'' \<notin> set (strip_braces s) \<and> CHR ''}'' \<notin> set (strip_braces s)"
  by (simp add: strip_braces_def)

section \<open>The rendered entry\<close>

text \<open>
  C1: the record with title "A Study", authors "J Smith, K Lee", year "2021", venue
  "IEEE Conference on X", an empty snippet, 5 citations and an empty link, rendered at
  index 0, gives the entry below: the header line with the key \<open>smith2021a_0\<close>, then the
  fields title, author, year, booktitle and note in this order, each line ending with a
  comma, and no abstract line and no url line.
\<close>

theorem end_to_end_example:
  "publication_lines
     [''title'' \<mapsto> PStr ''A Study'', ''authors'' \<mapsto> PStr ''J Smith, K Lee'',
      ''year'' \<mapsto> PStr ''2021'', ''venue'' \<mapsto> PStr ''IEEE Conference on X'',
      ''snippet'' \<mapsto> PStr [], ''citations'' \<mapsto> PInt 5, ''link'' \<mapsto> PStr []] 0 =
   Inr [''@inproceedings{smith2021a_0,'',
        ''  title = {A Study},'',
        ''  author = {J Smith, K Lee},'',
        ''  year = {2021},'',
        ''  booktitle = {IEEE Conference on X},'',
        ''  note = {Cited by 5},'',
        ''}''] \<and>
   publication_to_bibtex
     [''title'' \<mapsto> PStr ''A Study'', ''authors'' \<mapsto> PStr ''J Smith, K Lee'',
      ''year'' \<mapsto> PStr ''2021'', ''venue'' \<mapsto> PStr ''IEEE Conference on X'',
      ''snippet'' \<mapsto> PStr [], ''citations'' \<mapsto> PInt 5, ''link'' \<mapsto> PStr []] 0 =
   Inr (''@inproceedings{smith2021a_0,\<newline>'' @
        ''  title = {A Study},\<newline>'' @
        ''  author = {J Smith, K Lee},\<newline>'' @
        ''  year = {2021},\<newline>'' @
        ''  booktitle = {IEEE Conference on X},\<newline>'' @
        ''  note = {Cited by 5},\<newline>'' @
        ''}'')"
  by code_simp

section \<open>Citation keys\<close>

text \<open>Decimal digits: distinct digits give distinct characters, none an underscore or a minus.\<close>

lemma of_char_digit_char: "d < 10 \<Longrightarrow> of_char (digit_char d) = 48 + d"
  by (simp add: digit_char_def)

lemma digit_char_inj:
  assumes "a < 10" "b < 10" "digit_char a = digit_char b"
  shows "a = b"
proof -
  from assms(3) have "(of_char (digit_char a) :: nat) = of_char (digit_char b)" by simp
  with assms(1,2) show ?thesis by (simp add: of_char_digit_char)
qed

lemma digit_char_not_special:
  assumes "d < 10"
  shows "digit_char d \<noteq> CHR ''_''" and "digit_char d \<noteq> CHR ''-''"
proof -
  have "(of_char (digit_char d) :: nat) \<noteq> of_char CHR ''_''"
    using assms by (simp add: of_char_digit_char)
  then show "digit_char d \<noteq> CHR ''_''" by auto
  have "(of_char (digit_char d) :: nat) \<noteq> of_char CHR ''-''"
    using assms by (simp add: of_char_digit_char)
  then show "digit_char d \<noteq> CHR ''-''" by auto
qed

lemma str_nat_not_Nil: "str_nat n \<noteq> []"
  by (subst str_nat.simps) simp

lemma str_nat_chars: "c \<in> set (str_nat n) \<Longrightarrow> c \<noteq> CHR ''_'' \<and> c \<noteq> CHR ''-''"
proof (induction n rule: str_nat.induct)
  case (1 n)
  show ?case
  proof (cases "n < 10")
    case True
    with "1.prems" have "c = digit_char n"
      by (subst (asm) str_nat.simps) simp
    with True digit_char_not_special [of n] show ?thesis by simp
  next
    case False
    with "1.prems" have "c \<in> set (str_nat (n div 10)) \<or> c = digit_char (n mod 10)"
      by (subst (asm) str_nat.simps) auto
    then show ?thesis
    proof
      assume "c \<in> set (str_nat (n div 10))"
      with False "1.IH" show ?thesis by simp
    next
      assume "c = digit_char (n mod 10)"
      with digit_char_not_special [of "n mod 10"] show ?thesis by simp
    qed
  qed
qed

text \<open>The decimal form determines the number.\<close>

lemma str_nat_inj: "str_nat n = str_nat m \<Longrightarrow> n = m"
proof (induction n arbitrary: m rule: str_nat.induct)
  case (1 n)
  show ?case
  proof (cases "n < 10")
    case True
    then have n: "str_nat n = [digit_char n]"
      by (subst str_nat.simps) simp
    show ?thesis
    proof (cases "m < 10")
      case True
      then have "str_nat m = [digit_char m]"
        by (subst str_nat.simps) simp
      with n "1.prems" have "digit_char n = digit_char m" by simp
      with \<open>n < 10\<close> True show ?thesis by (rule digit_char_inj)
    next
      case False
      then have "str_nat m = str_nat (m div 10) @ [digit_char (m mod 10)]"
        by (subst str_nat.simps) simp
      with n "1.prems" have "str_nat (m div 10) = []" by simp
      with str_nat_not_Nil show ?thesis by blast
    qed
  next
    case False
    then have n: "str_nat n = str_nat (n div 10) @ [digit_char (n mod 10)]"
      by (subst str_nat.simps) simp
    show ?thesis
    proof (cases "m < 10")
      case True
      then have "str_nat m = [digit_char m]"
        by (subst str_nat.simps) simp
      with n "1.prems" have "str_nat (n div 10) = []" by simp
      with str_nat_not_Nil show ?thesis by blast
    next
      case m: False
      then have "str_nat m = str_nat (m div 10) @ [digit_char (m mod 10)]"
        by (subst str_nat.simps) simp
      with n "1.prems" have eq: "str_nat (n div 10) = str_nat (m div 10)"
        and d: "digit_char (n mod 10) = digit_char (m mod 10)"
        by simp_all
      from "1.IH" [OF False eq] have "n div 10 = m div 10" .
      moreover from d have "n mod 10 = m mod 10"
        by (intro digit_char_inj) simp_all
      ultimately show ?thesis
        by (metis div_mult_mod_eq)
    qed
  qed
qed

lemma str_int_chars: "CHR ''_'' \<notin> set (str_int i)"
  using str_nat_chars by (auto simp: str_int_def)

lemma str_int_inj:
  assumes "str_int i = str_int j"
  shows "i = j"
proof -
  have first: "hd (str_nat n) \<noteq> CHR ''-''" for n
    using str_nat_chars [of "hd (str_nat n)" n] str_nat_not_Nil [of n] by simp
  have neg: "str_int a \<noteq> str_int b" if "a < 0" "\<not> b < 0" for a b
  proof
    assume "str_int a = str_int b"
    with that have "CHR ''-'' # str_nat (nat (- a)) = str_nat (nat b)"
      by (simp add: str_int_def)
    then have "hd (str_nat (nat b)) = CHR ''-''"
      by (metis list.sel(1))
    with first show False by blast
  qed
  show ?thesis
  proof (cases "i < 0")
    case True
    show ?thesis
    proof (cases "j < 0")
      case j: True
      with True assms have "str_nat (nat (- i)) = str_nat (nat (- j))"
        by (simp add: str_int_def)
      then have "nat (- i) = nat (- j)" by (rule str_nat_inj)
      with True j show ?thesis by simp
    next
      case False
      with True neg [of i j] assms show ?thesis by simp
    qed
  next
    case False
    show ?thesis
    proof (cases "j < 0")
      case True
      with False neg [of j i] assms show ?thesis by simp
    next
      case j: False
      with False assms have "str_nat (nat i) = str_nat (nat j)"
        by (simp add: str_int_def)
      then have "nat i = nat j" by (rule str_nat_inj)
      with False j show ?thesis by simp
    qed
  qed
qed

text \<open>What follows the last underscore of a text is determined by the text.\<close>

lemma after_last_underscore:
  assumes "CHR ''_'' \<notin> set s"
  shows "rev (takeWhile (\<lambda>c. c \<noteq> CHR ''_'') (rev (x @ ''_'' @ s))) = s"
proof -
  have "takeWhile (\<lambda>c. c \<noteq> CHR ''_'') (rev s @ CHR ''_'' # rev x) = rev s"
    using assms by (auto simp: takeWhile_tail)
  then show ?thesis by simp
qed

lemma bibtex_key_index:
  "rev (takeWhile (\<lambda>c. c \<noteq> CHR ''_'') (rev (bibtex_key ttl yr authors i))) = str_int i"
  unfolding bibtex_key_def by (rule after_last_underscore) (rule str_int_chars)

lemma bibtex_key_inj: "bibtex_key ttl yr authors i = bibtex_key ttl' yr' authors' j \<Longrightarrow> i = j"
proof -
  assume "bibtex_key ttl yr authors i = bibtex_key ttl' yr' authors' j"
  then have "str_int i = str_int j"
    using bibtex_key_index [of ttl yr authors i] bibtex_key_index [of ttl' yr' authors' j]
    by simp
  then show "i = j" by (rule str_int_inj)
qed

text \<open>
  Splitting on whitespace: whitespace alone gives no token, a run without whitespace is
  read as a whole, and a whitespace character ends what was read before it.
\<close>

lemma split_from_spaces:
  "\<forall>c \<in> set v. is_space c \<Longrightarrow> split_from w v = (if w = [] then [] else [w])"
  by (induction v arbitrary: w) auto

lemma split_from_run:
  "\<forall>c \<in> set w. \<not> is_space c \<Longrightarrow> split_from acc (w @ s) = split_from (acc @ w) s"
  by (induction w arbitrary: acc) auto

lemma split_from_break:
  "is_space c \<Longrightarrow> split_from acc (u @ c # s) = split_from acc (u @ [c]) @ split_from [] s"
  by (induction u arbitrary: acc) auto

lemma split_from_leading:
  "\<forall>c \<in> set u. is_space c \<Longrightarrow> split_from [] (u @ s) = split_from [] s"
  by (induction u) auto

text \<open>The last token of a text is its last run without whitespace.\<close>

lemma split_last_token:
  assumes "u = [] \<or> is_space (last u)" "w \<noteq> []" "\<forall>c \<in> set w. \<not> is_space c"
    "\<forall>c \<in> set v. is_space c"
  shows "\<exists>ts. split (u @ w @ v) = ts @ [w]"
proof -
  have tail: "split_from [] (w @ v) = [w]"
    using assms(2,3,4) by (simp add: split_from_run split_from_spaces)
  show ?thesis
  proof (cases "u = []")
    case True
    with tail show ?thesis by (simp add: split_def)
  next
    case False
    with assms(1) obtain u' c where u: "u = u' @ [c]" and c: "is_space c"
      by (metis append_butlast_last_id)
    have "split_from [] (u' @ c # (w @ v)) = split_from [] (u' @ [c]) @ split_from [] (w @ v)"
      using c by (rule split_from_break)
    with tail u show ?thesis by (simp add: split_def)
  qed
qed

text \<open>The first token of a text is its first run without whitespace.\<close>

lemma split_first_token:
  assumes "\<forall>c \<in> set u. is_space c" "w \<noteq> []" "\<forall>c \<in> set w. \<not> is_space c"
    "v = [] \<or> is_space (hd v)"
  shows "\<exists>ts. split (u @ w @ v) = w # ts"
proof -
  have "split (u @ w @ v) = split_from w v"
    using assms(1,3) by (simp add: split_def split_from_leading split_from_run)
  moreover have "\<exists>ts. split_from w v = w # ts"
    using assms(2,4) by (cases v) auto
  ultimately show ?thesis by simp
qed

text \<open>The text before the first comma.\<close>

lemma before_first_comma:
  assumes "CHR '','' \<notin> set seg" "rest = [] \<or> hd rest = CHR '',''"
  shows "takeWhile (\<lambda>c. c \<noteq> CHR '','') (seg @ rest) = seg"
proof -
  have "takeWhile (\<lambda>c. c \<noteq> CHR '','') rest = []"
    using assms(2) by (cases rest) auto
  moreover have "\<forall>c \<in> set seg. c \<noteq> CHR '',''"
    using assms(1) by auto
  ultimately show ?thesis
    by (simp add: takeWhile_append2)
qed

text \<open>
  The surname used in the key: the last run without whitespace of the text before the
  first comma, and \<open>unknown\<close> when that text has no such run.
\<close>

lemma author_last_of_surname:
  assumes "authors = u @ w @ v @ rest" "CHR '','' \<notin> set (u @ w @ v)"
    "rest = [] \<or> hd rest = CHR '',''"
    "u = [] \<or> is_space (last u)" "w \<noteq> []" "\<forall>c \<in> set w. \<not> is_space c"
    "\<forall>c \<in> set v. is_space c"
  shows "author_last_of authors = w"
proof -
  have "takeWhile (\<lambda>c. c \<noteq> CHR '','') ((u @ w @ v) @ rest) = u @ w @ v"
    using assms(2,3) by (rule before_first_comma)
  then have seg: "takeWhile (\<lambda>c. c \<noteq> CHR '','') authors = u @ w @ v"
    using assms(1) by simp
  from split_last_token [OF assms(4,5,6,7)] obtain ts where "split (u @ w @ v) = ts @ [w]"
    by blast
  with seg assms(1,5) show ?thesis
    by (simp add: author_last_of_def)
qed

lemma author_last_of_unknown:
  assumes "authors = seg @ rest" "CHR '','' \<notin> set seg" "rest = [] \<or> hd rest = CHR '',''"
    "\<forall>c \<in> set seg. is_space c"
  shows "author_last_of authors = ''unknown''"
proof -
  have "takeWhile (\<lambda>c. c \<noteq> CHR '','') (seg @ rest) = seg"
    using assms(2,3) by (rule before_first_comma)
  moreover have "split seg = []"
    using assms(4) by (simp add: split_def split_from_spaces)
  ultimately show ?thesis
    using assms(1) by (simp add: author_last_of_def)
qed

text \<open>
  C2: the key in the header line of an entry is the key of the cleaned title, the year and
  the cleaned authors at the index of the entry. The key is the surname of the first
  author (the last word of the authors text before the first comma) with only its word
  characters, in lower case, then the year, then the first word of the title without its
  punctuation, in lower case, then an underscore and the index in decimal. The surname
  is \<open>unknown\<close> when the text before the first comma has no word, and the title word is
  \<open>unknown\<close> when the title has none. Two keys made at different indices differ,
  whatever the records are.
\<close>

theorem citation_key_unique:
  "(publication_lines p i = Inr ls \<longrightarrow>
      (\<exists>t a e. title_of (normalize_record p) = PStr t \<and> authors_of (normalize_record p) = PStr a \<and>
         entry_type_of (venue_of (normalize_record p)) = Inr e \<and>
         hd ls = ''@'' @ e @ ''{'' @
           bibtex_key (strip_braces t) (year_of (normalize_record p)) (strip_braces a) i @ '','')) \<and>
   (authors = u @ w @ v @ rest \<and> CHR '','' \<notin> set (u @ w @ v) \<and>
    (rest = [] \<or> hd rest = CHR '','') \<and>
    (u = [] \<or> is_space (last u)) \<and> w \<noteq> [] \<and> (\<forall>c \<in> set w. \<not> is_space c) \<and>
    (\<forall>c \<in> set v. is_space c) \<and>
    filter (\<lambda>c. is_word c \<or> is_space c) ttl = u' @ w' @ v' \<and>
    (\<forall>c \<in> set u'. is_space c) \<and> w' \<noteq> [] \<and> (\<forall>c \<in> set w'. \<not> is_space c) \<and>
    (v' = [] \<or> is_space (hd v'))
      \<longrightarrow> bibtex_key ttl yr authors i =
            lower (filter is_word w) @ yr @ lower w' @ ''_'' @ str_int i) \<and>
   (authors = seg @ rest \<and> CHR '','' \<notin> set seg \<and> (rest = [] \<or> hd rest = CHR '','') \<and>
    (\<forall>c \<in> set seg. is_space c)
      \<longrightarrow> author_last_of authors = ''unknown'') \<and>
   ((\<forall>c \<in> set (filter (\<lambda>c. is_word c \<or> is_space c) ttl). is_space c)
      \<longrightarrow> sanitize_bibtex_key ttl yr s = lower (filter is_word s) @ yr @ ''unknown'') \<and>
   bibtex_key ttl yr authors i =
     lower (filter is_word (author_last_of authors)) @ yr @
     (case split (filter (\<lambda>c. is_word c \<or> is_space c) ttl) of [] \<Rightarrow> ''unknown'' | w # _ \<Rightarrow> lower w) @
     ''_'' @ str_int i \<and>
   (i \<noteq> j \<longrightarrow> bibtex_key ttl yr authors i \<noteq> bibtex_key ttl' yr' authors' j)"
proof (intro conjI impI)
  assume "publication_lines p i = Inr ls"
  from publication_lines_Inr [OF this]
  show "\<exists>t a e. title_of (normalize_record p) = PStr t \<and> authors_of (normalize_record p) = PStr a \<and>
         entry_type_of (venue_of (normalize_record p)) = Inr e \<and>
         hd ls = ''@'' @ e @ ''{'' @
           bibtex_key (strip_braces t) (year_of (normalize_record p)) (strip_braces a) i @ '',''"
    by fastforce
next
  assume h: "authors = u @ w @ v @ rest \<and> CHR '','' \<notin> set (u @ w @ v) \<and>
    (rest = [] \<or> hd rest = CHR '','') \<and>
    (u = [] \<or> is_space (last u)) \<and> w \<noteq> [] \<and> (\<forall>c \<in> set w. \<not> is_space c) \<and>
    (\<forall>c \<in> set v. is_space c) \<and>
    filter (\<lambda>c. is_word c \<or> is_space c) ttl = u' @ w' @ v' \<and>
    (\<forall>c \<in> set u'. is_space c) \<and> w' \<noteq> [] \<and> (\<forall>c \<in> set w'. \<not> is_space c) \<and>
    (v' = [] \<or> is_space (hd v'))"
  then have surname: "author_last_of authors = w"
    by (intro author_last_of_surname [where u = u and v = v and rest = rest]) blast+
  from h have "\<exists>ts. split (u' @ w' @ v') = w' # ts"
    by (intro split_first_token) blast+
  with h obtain ts where "split (filter (\<lambda>c. is_word c \<or> is_space c) ttl) = w' # ts"
    by auto
  with surname show "bibtex_key ttl yr authors i =
      lower (filter is_word w) @ yr @ lower w' @ ''_'' @ str_int i"
    by (simp add: bibtex_key_def sanitize_bibtex_key_def Let_def)
next
  assume "authors = seg @ rest \<and> CHR '','' \<notin> set seg \<and> (rest = [] \<or> hd rest = CHR '','') \<and>
    (\<forall>c \<in> set seg. is_space c)"
  then show "author_last_of authors = ''unknown''"
    by (intro author_last_of_unknown [where seg = seg and rest = rest]) blast+
next
  assume "\<forall>c \<in> set (filter (\<lambda>c. is_word c \<or> is_space c) ttl). is_space c"
  then have "split (filter (\<lambda>c. is_word c \<or> is_space c) ttl) = []"
    by (simp add: split_def split_from_spaces)
  then show "sanitize_bibtex_key ttl yr s = lower (filter is_word s) @ yr @ ''unknown''"
    by (simp add: sanitize_bibtex_key_def Let_def)
next
  show "bibtex_key ttl yr authors i =
     lower (filter is_word (author_last_of authors)) @ yr @
     (case split (filter (\<lambda>c. is_word c \<or> is_space c) ttl) of [] \<Rightarrow> ''unknown'' | w # _ \<Rightarrow> lower w) @
     ''_'' @ str_int i"
    by (simp add: bibtex_key_def sanitize_bibtex_key_def Let_def)
next
  assume "i \<noteq> j"
  then show "bibtex_key ttl yr authors i \<noteq> bibtex_key ttl' yr' authors' j"
    using bibtex_key_inj by blast
qed

theorem citation_key_unique_witness:
  "publication_lines
     [''title'' \<mapsto> PStr ''Deep Learning Systems'', ''authors'' \<mapsto> PStr ''Jane Smith'',
      ''year'' \<mapsto> PStr ''2020''] 0 =
     Inr [''@misc{smith2020deep_0,'', ''  title = {Deep Learning Systems},'',
          ''  author = {Jane Smith},'', ''  year = {2020},'', ''}''] \<and>
   bibtex_key ''Deep Learning Systems'' ''2020'' ''Jane Smith'' 0 = ''smith2020deep_0'' \<and>
   bibtex_key ''Deep Learning Systems'' ''2020'' ''Jane Smith'' 1 = ''smith2020deep_1'' \<and>
   bibtex_key ''Deep Learning Systems'' ''2020'' ''Jane Smith'' 0 \<noteq>
     bibtex_key ''Deep Learning Systems'' ''2020'' ''Jane Smith'' 1 \<and>
   bibtex_key ''Deep-Learning: Systems'' ''2020'' ''Jane O-Neil , K Lee'' 4 =
     lower (filter is_word ''O-Neil'') @ ''2020'' @ lower ''DeepLearning'' @ ''_'' @ str_int 4 \<and>
   bibtex_key ''Deep-Learning: Systems'' ''2020'' ''Jane O-Neil , K Lee'' 4 = ''oneil2020deeplearning_4'' \<and>
   author_last_of '' , K Lee'' = ''unknown'' \<and>
   sanitize_bibtex_key ''?!'' ''2020'' ''Lee'' = ''lee2020unknown''"
proof -
  have r: "publication_lines
     [''title'' \<mapsto> PStr ''Deep Learning Systems'', ''authors'' \<mapsto> PStr ''Jane Smith'',
      ''year'' \<mapsto> PStr ''2020''] 0 =
     Inr [''@misc{smith2020deep_0,'', ''  title = {Deep Learning Systems},'',
          ''  author = {Jane Smith},'', ''  year = {2020},'', ''}'']"
    by code_simp
  have k0: "bibtex_key ''Deep Learning Systems'' ''2020'' ''Jane Smith'' 0 = ''smith2020deep_0''"
    by code_simp
  have k1: "bibtex_key ''Deep Learning Systems'' ''2020'' ''Jane Smith'' 1 = ''smith2020deep_1''"
    by code_simp
  note inst = citation_key_unique [where i = 4 and j = 5 and yr = "''2020''"
      and ttl = "''Deep-Learning: Systems''" and authors = "''Jane O-Neil , K Lee''"
      and u = "''Jane ''" and w = "''O-Neil''" and v = "'' ''" and rest = "'', K Lee''"
      and u' = "[]" and w' = "''DeepLearning''" and v' = "'' Systems''"]
  have sp: "is_space CHR '' ''"
    by (simp add: is_space_def code_point_def)
  have w1: "\<forall>c \<in> set ''O-Neil''. \<not> is_space c"
    by (simp add: is_space_def code_point_def)
  have w2: "\<forall>c \<in> set ''DeepLearning''. \<not> is_space c"
    by (simp add: is_space_def code_point_def)
  have f: "filter (\<lambda>c. is_word c \<or> is_space c) ''Deep-Learning: Systems'' = ''DeepLearning Systems''"
    by code_simp
  have hyp: "''Jane O-Neil , K Lee'' = ''Jane '' @ ''O-Neil'' @ '' '' @ '', K Lee'' \<and>
    CHR '','' \<notin> set (''Jane '' @ ''O-Neil'' @ '' '') \<and>
    ('', K Lee'' = [] \<or> hd '', K Lee'' = CHR '','') \<and>
    (''Jane '' = [] \<or> is_space (last ''Jane '')) \<and> ''O-Neil'' \<noteq> [] \<and>
    (\<forall>c \<in> set ''O-Neil''. \<not> is_space c) \<and> (\<forall>c \<in> set '' ''. is_space c) \<and>
    filter (\<lambda>c. is_word c \<or> is_space c) ''Deep-Learning: Systems'' = [] @ ''DeepLearning'' @ '' Systems'' \<and>
    (\<forall>c \<in> set []. is_space c) \<and> ''DeepLearning'' \<noteq> [] \<and>
    (\<forall>c \<in> set ''DeepLearning''. \<not> is_space c) \<and>
    ('' Systems'' = [] \<or> is_space (hd '' Systems''))"
    using sp w1 w2 f by simp
  from inst hyp
  have k4: "bibtex_key ''Deep-Learning: Systems'' ''2020'' ''Jane O-Neil , K Lee'' 4 =
     lower (filter is_word ''O-Neil'') @ ''2020'' @ lower ''DeepLearning'' @ ''_'' @ str_int 4"
    by blast
  have e4: "lower (filter is_word ''O-Neil'') @ ''2020'' @ lower ''DeepLearning'' @ ''_'' @ str_int 4 =
      ''oneil2020deeplearning_4''"
    by code_simp
  have "(0::int) \<noteq> 1" by simp
  with citation_key_unique [where i = 0 and j = 1 and ttl = "''Deep Learning Systems''"
      and yr = "''2020''" and authors = "''Jane Smith''" and ttl' = "''Deep Learning Systems''"
      and yr' = "''2020''" and authors' = "''Jane Smith''"]
  have ne: "bibtex_key ''Deep Learning Systems'' ''2020'' ''Jane Smith'' 0 \<noteq>
     bibtex_key ''Deep Learning Systems'' ''2020'' ''Jane Smith'' 1"
    by blast
  have u1: "author_last_of '' , K Lee'' = ''unknown''"
    by code_simp
  have u2: "sanitize_bibtex_key ''?!'' ''2020'' ''Lee'' = ''lee2020unknown''"
    by code_simp
  from r k0 k1 ne k4 e4 u1 u2 show ?thesis by simp
qed

section \<open>Entry type\<close>

text \<open>
  A lower-cased keyword occurs in the lower-cased venue exactly when some part of the venue
  is the keyword up to case.
\<close>

lemma sublist_map_iff:
  "sublist k (map f v) \<longleftrightarrow> (\<exists>w. sublist w v \<and> map f w = k)"
proof
  assume "sublist k (map f v)"
  then obtain ps ss where "map f v = ps @ k @ ss"
    by (auto simp: sublist_def)
  then have "\<exists>ps' r. v = ps' @ r \<and> ps = map f ps' \<and> k @ ss = map f r"
    by (simp only: map_eq_append_conv)
  then obtain ps' r where v: "v = ps' @ r" and "k @ ss = map f r"
    by blast
  then have "\<exists>w ss'. r = w @ ss' \<and> k = map f w \<and> ss = map f ss'"
    by (simp only: append_eq_map_conv)
  then obtain w ss' where "r = w @ ss'" and "map f w = k"
    by blast
  with v have "sublist w v" and "map f w = k"
    by (auto simp: sublist_def)
  then show "\<exists>w. sublist w v \<and> map f w = k" by blast
next
  assume "\<exists>w. sublist w v \<and> map f w = k"
  then show "sublist k (map f v)"
    by (auto intro: map_mono_sublist)
qed

lemma conference_venue_iff:
  "list_ex (\<lambda>x. sublist x (lower v)) [''conference'', ''proceedings'', ''symposium'', ''workshop''] \<longleftrightarrow>
   (\<exists>w. sublist w v \<and> lower w \<in> {''conference'', ''proceedings'', ''symposium'', ''workshop''})"
  unfolding lower_def list_ex_iff sublist_map_iff [of _ lower_char v] by auto

text \<open>
  C3: an empty venue gives \<open>misc\<close>; a non-empty venue with a part that is, up to case, one
  of conference, proceedings, symposium, workshop gives \<open>inproceedings\<close>, whatever else
  the venue contains; every other non-empty venue gives \<open>article\<close>.
\<close>

theorem entry_type_classification:
  "entry_type_of (PStr []) = Inr ''misc'' \<and>
   (v \<noteq> [] \<and>
    (\<exists>w. sublist w v \<and> lower w \<in> {''conference'', ''proceedings'', ''symposium'', ''workshop''})
      \<longrightarrow> entry_type_of (PStr v) = Inr ''inproceedings'') \<and>
   (v \<noteq> [] \<and>
    \<not> (\<exists>w. sublist w v \<and> lower w \<in> {''conference'', ''proceedings'', ''symposium'', ''workshop''})
      \<longrightarrow> entry_type_of (PStr v) = Inr ''article'')"
proof (intro conjI impI)
  show "entry_type_of (PStr []) = Inr ''misc''"
    by (simp add: entry_type_of_def)
next
  assume h: "v \<noteq> [] \<and>
    (\<exists>w. sublist w v \<and> lower w \<in> {''conference'', ''proceedings'', ''symposium'', ''workshop''})"
  from h have "v \<noteq> []" by (rule conjunct1)
  moreover from h
  have "list_ex (\<lambda>x. sublist x (lower v)) [''conference'', ''proceedings'', ''symposium'', ''workshop'']"
    unfolding conference_venue_iff by (rule conjunct2)
  ultimately
  show "entry_type_of (PStr v) = Inr ''inproceedings''"
    by (simp add: entry_type_of_def)
next
  assume h: "v \<noteq> [] \<and>
    \<not> (\<exists>w. sublist w v \<and> lower w \<in> {''conference'', ''proceedings'', ''symposium'', ''workshop''})"
  from h have "v \<noteq> []" by (rule conjunct1)
  moreover from h
  have "\<not> list_ex (\<lambda>x. sublist x (lower v)) [''conference'', ''proceedings'', ''symposium'', ''workshop'']"
    unfolding conference_venue_iff by (rule conjunct2)
  ultimately
  show "entry_type_of (PStr v) = Inr ''article''"
    by (simp add: entry_type_of_def)
qed

theorem entry_type_classification_witness:
  "entry_type_of (PStr ''Workshop on JOURNAL Editing'') = Inr ''inproceedings'' \<and>
   entry_type_of (PStr ''IEEE Transactions on X'') = Inr ''article'' \<and>
   entry_type_of (PStr []) = Inr ''misc''"
proof -
  have "sublist ''Workshop'' ''Workshop on JOURNAL Editing''"
    by code_simp
  moreover have "lower ''Workshop'' = ''workshop''"
    by code_simp
  ultimately have a: "\<exists>w. sublist w ''Workshop on JOURNAL Editing'' \<and>
      lower w \<in> {''conference'', ''proceedings'', ''symposium'', ''workshop''}"
    by blast
  have "\<not> list_ex (\<lambda>x. sublist x (lower ''IEEE Transactions on X''))
      [''conference'', ''proceedings'', ''symposium'', ''workshop'']"
    by code_simp
  then have b: "\<not> (\<exists>w. sublist w ''IEEE Transactions on X'' \<and>
      lower w \<in> {''conference'', ''proceedings'', ''symposium'', ''workshop''})"
    unfolding conference_venue_iff .
  from a b entry_type_classification [of "''Workshop on JOURNAL Editing''"]
    entry_type_classification [of "''IEEE Transactions on X''"]
  show ?thesis by simp
qed

section \<open>Curly braces\<close>

text \<open>
  C4, as the code has it: in an entry that renders, the title line, the author line and
  the abstract line (when the snippet is not empty) hold the title, the authors and the
  snippet with every curly brace removed, so no brace of these three values is in the
  value of its field.
\<close>

theorem braces_stripped:
  "publication_lines p i = Inr ls \<longrightarrow>
     (\<exists>t a. title_of (normalize_record p) = PStr t \<and> authors_of (normalize_record p) = PStr a \<and>
        ls ! 1 = ''  title = {'' @ strip_braces t @ ''},'' \<and>
        ls ! 2 = ''  author = {'' @ strip_braces a @ ''},'' \<and>
        CHR ''{'' \<notin> set (strip_braces t) \<and> CHR ''}'' \<notin> set (strip_braces t) \<and>
        CHR ''{'' \<notin> set (strip_braces a) \<and> CHR ''}'' \<notin> set (strip_braces a)) \<and>
     (\<forall>l \<in> set ls. prefix ''  abstract = {'' l \<longrightarrow>
        (\<exists>s. snippet_of (normalize_record p) = PStr s \<and>
           l = ''  abstract = {'' @ strip_braces s @ ''},'' \<and>
           CHR ''{'' \<notin> set (strip_braces s) \<and> CHR ''}'' \<notin> set (strip_braces s)))"
proof
  assume "publication_lines p i = Inr ls"
  from publication_lines_Inr [OF this] obtain t a e ab where
    t: "title_of (normalize_record p) = PStr t" and a: "authors_of (normalize_record p) = PStr a" and
    ab: "snippet_lines (snippet_of (normalize_record p)) = Inr ab" and
    ls: "ls = [''@'' @ e @ ''{'' @
                   bibtex_key (strip_braces t) (year_of (normalize_record p)) (strip_braces a) i @ '','',
                 ''  title = {'' @ strip_braces t @ ''},'',
                 ''  author = {'' @ strip_braces a @ ''},'',
                 ''  year = {'' @ year_of (normalize_record p) @ ''},'']
                @ venue_lines e (venue_of (normalize_record p))
                @ ab
                @ citations_lines (citations_of (normalize_record p))
                @ link_lines (link_of (normalize_record p))
                @ [''}'']"
    by blast
  have first: "ls ! 1 = ''  title = {'' @ strip_braces t @ ''},'' \<and>
      ls ! 2 = ''  author = {'' @ strip_braces a @ ''},''"
    by (simp add: ls)
  have abstract: "\<exists>s. snippet_of (normalize_record p) = PStr s \<and>
           l = ''  abstract = {'' @ strip_braces s @ ''},''"
    if "l \<in> set ls" "prefix ''  abstract = {'' l" for l
    using that snippet_lines_Inr [OF ab]
    by (auto simp: ls venue_lines_def citations_lines_def link_lines_def split: if_splits)
  show "(\<exists>t a. title_of (normalize_record p) = PStr t \<and> authors_of (normalize_record p) = PStr a \<and>
        ls ! 1 = ''  title = {'' @ strip_braces t @ ''},'' \<and>
        ls ! 2 = ''  author = {'' @ strip_braces a @ ''},'' \<and>
        CHR ''{'' \<notin> set (strip_braces t) \<and> CHR ''}'' \<notin> set (strip_braces t) \<and>
        CHR ''{'' \<notin> set (strip_braces a) \<and> CHR ''}'' \<notin> set (strip_braces a)) \<and>
     (\<forall>l \<in> set ls. prefix ''  abstract = {'' l \<longrightarrow>
        (\<exists>s. snippet_of (normalize_record p) = PStr s \<and>
           l = ''  abstract = {'' @ strip_braces s @ ''},'' \<and>
           CHR ''{'' \<notin> set (strip_braces s) \<and> CHR ''}'' \<notin> set (strip_braces s)))"
    using t a first abstract strip_braces_free by blast
qed

theorem braces_stripped_witness:
  "publication_lines
     [''title'' \<mapsto> PStr ''A {B} c'', ''authors'' \<mapsto> PStr ''{X} Yz'', ''snippet'' \<mapsto> PStr ''s{}t''] 0 =
   Inr [''@misc{yzn.d.a_0,'', ''  title = {A B c},'', ''  author = {X Yz},'', ''  year = {n.d.},'',
        ''  abstract = {st},'', ''}''] \<and>
   (\<exists>t a. ''  title = {A B c},'' = ''  title = {'' @ strip_braces t @ ''},'' \<and>
      ''  author = {X Yz},'' = ''  author = {'' @ strip_braces a @ ''},'' \<and>
      CHR ''{'' \<notin> set (strip_braces t) \<and> CHR ''}'' \<notin> set (strip_braces a))"
proof -
  let ?p = "[''title'' \<mapsto> PStr ''A {B} c'', ''authors'' \<mapsto> PStr ''{X} Yz'', ''snippet'' \<mapsto> PStr ''s{}t'']"
  let ?ls = "[''@misc{yzn.d.a_0,'', ''  title = {A B c},'', ''  author = {X Yz},'', ''  year = {n.d.},'',
        ''  abstract = {st},'', ''}'']"
  have r: "publication_lines ?p 0 = Inr ?ls"
    by code_simp
  from braces_stripped [of ?p 0 ?ls] r
  have "\<exists>t a. title_of (normalize_record ?p) = PStr t \<and> authors_of (normalize_record ?p) = PStr a \<and>
        ?ls ! 1 = ''  title = {'' @ strip_braces t @ ''},'' \<and>
        ?ls ! 2 = ''  author = {'' @ strip_braces a @ ''},'' \<and>
        CHR ''{'' \<notin> set (strip_braces t) \<and> CHR ''}'' \<notin> set (strip_braces t) \<and>
        CHR ''{'' \<notin> set (strip_braces a) \<and> CHR ''}'' \<notin> set (strip_braces a)"
    by blast
  then obtain t a where "?ls ! 1 = ''  title = {'' @ strip_braces t @ ''},''"
    "?ls ! 2 = ''  author = {'' @ strip_braces a @ ''},''"
    "CHR ''{'' \<notin> set (strip_braces t)" "CHR ''}'' \<notin> set (strip_braces a)"
    by blast
  then have "''  title = {A B c},'' = ''  title = {'' @ strip_braces t @ ''},'' \<and>
      ''  author = {X Yz},'' = ''  author = {'' @ strip_braces a @ ''},'' \<and>
      CHR ''{'' \<notin> set (strip_braces t) \<and> CHR ''}'' \<notin> set (strip_braces a)"
    by simp
  with r show ?thesis by blast
qed

text \<open>
  The claim as stated fails: the year, the venue and the link are embedded as they are,
  with their braces.
\<close>

theorem braces_kept_counterexample:
  "publication_lines
     [''title'' \<mapsto> PStr ''T'', ''year'' \<mapsto> PStr ''{2020}'', ''venue'' \<mapsto> PStr ''J{X}'',
      ''link'' \<mapsto> PStr ''http://a/{b}''] 0 =
   Inr [''@article{author{2020}t_0,'', ''  title = {T},'', ''  author = {Unknown Author},'',
        ''  year = {{2020}},'', ''  journal = {J{X}},'', ''  url = {http://a/{b}},'', ''}'']"
  by code_simp

section \<open>Year extraction\<close>

text \<open>
  An attempt of the pattern needs four characters, and every digit is a word character, so
  the two word boundaries say that no word character is next to the four digits.
\<close>

lemma year_match_at_short: "length s < 4 \<Longrightarrow> \<not> year_match_at p s"
  by (cases "(p, s)" rule: year_match_at.cases) auto

lemma is_digit_word: "is_digit c \<Longrightarrow> is_word c"
  by (simp add: is_digit_def is_word_def Let_def)

lemma is_word_1: "is_word CHR ''1''" and is_word_2: "is_word CHR ''2''"
  by (simp_all add: is_word_def code_point_def)

lemma drop_four:
  assumes "i + 4 \<le> length t"
  shows "drop i t = t ! i # t ! (i + 1) # t ! (i + 2) # t ! (i + 3) # drop (i + 4) t"
proof -
  have "drop i t = t ! i # drop (Suc i) t"
    using assms by (simp add: Cons_nth_drop_Suc)
  also have "drop (Suc i) t = t ! (i + 1) # drop (Suc (Suc i)) t"
    using assms Cons_nth_drop_Suc [of "Suc i" t] by simp
  also have "drop (Suc (Suc i)) t = t ! (i + 2) # drop (Suc (Suc (Suc i))) t"
    using assms Cons_nth_drop_Suc [of "Suc (Suc i)" t] by simp
  also have "drop (Suc (Suc (Suc i))) t = t ! (i + 3) # drop (i + 4) t"
    using assms Cons_nth_drop_Suc [of "Suc (Suc (Suc i))" t]
    by (simp add: eval_nat_numeral)
  finally show ?thesis .
qed

lemma next_char:
  "(case drop k t of [] \<Rightarrow> None | e # _ \<Rightarrow> Some e) = (if k < length t then Some (t ! k) else None)"
proof (cases "k < length t")
  case True
  then have "drop k t = t ! k # drop (Suc k) t" by (simp add: Cons_nth_drop_Suc)
  with True show ?thesis by simp
next
  case False then show ?thesis by simp
qed

lemma year_match_at_drop:
  assumes "i + 4 \<le> length t"
  shows "year_match_at p (drop i t) =
     (word_boundary p (Some (t ! i)) \<and>
      ((t ! i = CHR ''1'' \<and> t ! (i + 1) = CHR ''9'') \<or> (t ! i = CHR ''2'' \<and> t ! (i + 1) = CHR ''0'')) \<and>
      is_digit (t ! (i + 2)) \<and> is_digit (t ! (i + 3)) \<and>
      word_boundary (Some (t ! (i + 3))) (if i + 4 < length t then Some (t ! (i + 4)) else None))"
  by (subst drop_four [OF assms]) (simp only: year_match_at.simps next_char)

lemma match_is_year_token:
  "year_match_at (if i = 0 then None else Some (t ! (i - 1))) (drop i t) = is_year_token t i"
proof (cases "i + 4 \<le> length t")
  case False
  then have "length (drop i t) < 4" by simp
  then have "\<not> year_match_at (if i = 0 then None else Some (t ! (i - 1))) (drop i t)"
    by (rule year_match_at_short)
  with False show ?thesis by (simp add: is_year_token_def)
next
  case True
  have t2: "take 2 (drop i t) = [t ! i, t ! (i + 1)]"
    by (subst drop_four [OF True]) (simp add: eval_nat_numeral)
  show ?thesis
  proof (cases "i = 0")
    case True
    with \<open>i + 4 \<le> length t\<close> show ?thesis
      unfolding is_year_token_def year_match_at_drop [OF \<open>i + 4 \<le> length t\<close>] t2
      by (auto simp: word_boundary_def word_at_def is_digit_word is_word_1 is_word_2)
  next
    case False
    with \<open>i + 4 \<le> length t\<close> show ?thesis
      unfolding is_year_token_def year_match_at_drop [OF \<open>i + 4 \<le> length t\<close>] t2
      by (auto simp: word_boundary_def word_at_def is_digit_word is_word_1 is_word_2)
  qed
qed

text \<open>The scan, started in the middle of a text: \<open>t = pre @ s\<close>, at position \<open>length pre\<close>.\<close>

lemma year_search_suffix:
  assumes "p = (if pre = [] then None else Some (last pre))"
  shows "year_search p s =
     (if \<exists>i. length pre \<le> i \<and> is_year_token (pre @ s) i
      then Some (take 4 (drop (LEAST i. length pre \<le> i \<and> is_year_token (pre @ s) i) (pre @ s)))
      else None)"
  using assms
proof (induction s arbitrary: p pre)
  case Nil
  have "\<not> is_year_token (pre @ []) i" if "length pre \<le> i" for i
    using that by (simp add: is_year_token_def)
  then show ?case by auto
next
  case (Cons c cs)
  let ?t = "pre @ c # cs"
  let ?n = "length pre"
  have here: "year_match_at p (c # cs) = is_year_token ?t ?n"
  proof -
    have "(if ?n = 0 then None else Some (?t ! (?n - 1))) = p"
      using Cons.prems by (cases pre rule: rev_cases) (simp_all add: nth_append)
    with match_is_year_token [of ?n ?t] show ?thesis by simp
  qed
  show ?case
  proof (cases "is_year_token ?t ?n")
    case True
    then have "(LEAST i. ?n \<le> i \<and> is_year_token ?t i) = ?n"
      by (intro Least_equality) auto
    with True here show ?thesis by auto
  next
    case False
    have later: "(?n \<le> i \<and> is_year_token ?t i) = (length (pre @ [c]) \<le> i \<and> is_year_token ((pre @ [c]) @ cs) i)" for i
      using False by (cases "i = ?n") auto
    have "year_search (Some c) cs =
       (if \<exists>i. length (pre @ [c]) \<le> i \<and> is_year_token ((pre @ [c]) @ cs) i
        then Some (take 4 (drop (LEAST i. length (pre @ [c]) \<le> i \<and> is_year_token ((pre @ [c]) @ cs) i) ((pre @ [c]) @ cs)))
        else None)"
      by (rule Cons.IH) simp
    then have "year_search (Some c) cs =
       (if \<exists>i. ?n \<le> i \<and> is_year_token ?t i
        then Some (take 4 (drop (LEAST i. ?n \<le> i \<and> is_year_token ?t i) ?t))
        else None)"
      unfolding later [symmetric] by simp
    with False here show ?thesis by simp
  qed
qed

lemma year_search_first:
  "year_search None t =
     (if \<exists>i. is_year_token t i then Some (take 4 (drop (LEAST i. is_year_token t i) t)) else None)"
  using year_search_suffix [of None "[]" t] by simp

text \<open>
  C5: the result of the year extraction is the leftmost 4-digit token beginning with 19 or
  20, as it stands in the text, and the sentinel \<open>n.d.\<close> when the text has no such token.
\<close>

theorem extract_year_first_token:
  "(is_year_token t i \<and> (\<forall>j<i. \<not> is_year_token t j) \<longrightarrow> extract_year t = take 4 (drop i t)) \<and>
   ((\<forall>k. \<not> is_year_token t k) \<longrightarrow> extract_year t = ''n.d.'')"
proof (intro conjI impI)
  assume h: "is_year_token t i \<and> (\<forall>j<i. \<not> is_year_token t j)"
  then have "(LEAST k. is_year_token t k) = i"
    by (intro Least_equality) (auto simp: not_less [symmetric])
  with h show "extract_year t = take 4 (drop i t)"
    by (auto simp: extract_year_def year_search_first)
next
  assume "\<forall>k. \<not> is_year_token t k"
  then show "extract_year t = ''n.d.''"
    by (simp add: extract_year_def year_search_first)
qed

theorem extract_year_first_token_witness:
  "is_year_token ''... Proceedings 2019, IEEE'' 16 \<and>
   list_all (\<lambda>j. \<not> is_year_token ''... Proceedings 2019, IEEE'' j) [0..<16] \<and>
   extract_year ''... Proceedings 2019, IEEE'' = ''2019'' \<and>
   (\<forall>k. \<not> is_year_token ''n/a'' k) \<and> extract_year ''n/a'' = ''n.d.''"
proof -
  have a: "is_year_token ''... Proceedings 2019, IEEE'' 16"
    by (simp add: is_year_token_def is_digit_def is_word_def code_point_def)
  have b: "list_all (\<lambda>j. \<not> is_year_token ''... Proceedings 2019, IEEE'' j) [0..<16]"
    by code_simp
  then have b': "\<forall>j<16. \<not> is_year_token ''... Proceedings 2019, IEEE'' j"
    by (simp add: list_all_iff)
  have c: "\<forall>k. \<not> is_year_token ''n/a'' k"
    by (simp add: is_year_token_def)
  from a b b' c extract_year_first_token [of "''... Proceedings 2019, IEEE''" 16]
    extract_year_first_token [of "''n/a''" 0]
  show ?thesis by simp
qed

section \<open>Defaults of the normalizer\<close>

text \<open>
  C6, as the code has it: the normalizer returns a value for every dictionary. An absent
  title or authors field is replaced by its placeholder, an absent venue (with no
  publication field either), snippet or link by the empty string, an absent citation
  count by zero, and an absent year by the sentinel \<open>n.d.\<close>; a year that is present is
  taken as its text, with no year extraction applied.
\<close>

theorem normalize_defaults:
  "(p ''title'' = None \<longrightarrow> title_of (normalize_record p) = PStr ''Unknown Title'') \<and>
   (p ''authors'' = None \<longrightarrow> authors_of (normalize_record p) = PStr ''Unknown Author'') \<and>
   (p ''venue'' = None \<and> p ''publication'' = None \<longrightarrow> venue_of (normalize_record p) = PStr []) \<and>
   (p ''snippet'' = None \<longrightarrow> snippet_of (normalize_record p) = PStr []) \<and>
   (p ''link'' = None \<longrightarrow> link_of (normalize_record p) = PStr []) \<and>
   (p ''citations'' = None \<longrightarrow> citations_of (normalize_record p) = PInt 0) \<and>
   (p ''year'' = None \<longrightarrow> year_of (normalize_record p) = ''n.d.'') \<and>
   (p ''year'' = Some v \<longrightarrow> year_of (normalize_record p) = str v)"
  by (simp add: normalize_record_def get_def)

theorem normalize_defaults_witness:
  "normalize_record Map.empty =
     \<lparr> title_of = PStr ''Unknown Title'', authors_of = PStr ''Unknown Author'',
       year_of = ''n.d.'', venue_of = PStr [], snippet_of = PStr [],
       citations_of = PInt 0, link_of = PStr [] \<rparr> \<and>
   year_of (normalize_record [''year'' \<mapsto> PInt 2019]) = ''2019''"
proof -
  have "str (PInt 2019) = ''2019''" by code_simp
  with normalize_defaults [of Map.empty] normalize_defaults [of "[''year'' \<mapsto> PInt 2019]" "PInt 2019"]
  show ?thesis by simp
qed

text \<open>
  The claim as stated fails: the year of the normalizer is not derived by the extraction
  rule. A year field is kept as it is where the rule would return the token in it, and a
  record without a year field gets \<open>n.d.\<close> whatever its other fields hold.
\<close>

theorem year_not_extracted_counterexample:
  "year_of (normalize_record [''year'' \<mapsto> PStr ''circa 2019'']) = ''circa 2019'' \<and>
   extract_year ''circa 2019'' = ''2019'' \<and>
   year_of (normalize_record [''publication'' \<mapsto> PStr ''Proceedings 2019, IEEE'']) = ''n.d.'' \<and>
   extract_year ''Proceedings 2019, IEEE'' = ''2019''"
  by code_simp

section \<open>Optional fields\<close>

text \<open>
  C7: in an entry that renders, the note line is there exactly when the citation count is
  not zero, the booktitle or journal line exactly when the venue is not empty, the abstract
  line exactly when the snippet is not empty, and the url line exactly when the link is not
  empty; and a note line reads \<open>Cited by N\<close> for the citation count \<open>N\<close>.
\<close>

theorem optional_fields:
  "publication_lines p i = Inr ls \<longrightarrow>
     (list_ex (prefix ''  note = {'') ls \<longleftrightarrow> truthy (citations_of (normalize_record p))) \<and>
     (list_ex (\<lambda>l. prefix ''  booktitle = {'' l \<or> prefix ''  journal = {'' l) ls
        \<longleftrightarrow> truthy (venue_of (normalize_record p))) \<and>
     (list_ex (prefix ''  abstract = {'') ls \<longleftrightarrow> truthy (snippet_of (normalize_record p))) \<and>
     (list_ex (prefix ''  url = {'') ls \<longleftrightarrow> truthy (link_of (normalize_record p))) \<and>
     (\<forall>l \<in> set ls. prefix ''  note = {'' l \<longrightarrow>
        l = ''  note = {Cited by '' @ str (citations_of (normalize_record p)) @ ''},'')"
proof
  assume "publication_lines p i = Inr ls"
  from publication_lines_Inr [OF this] obtain t a e ab where
    ab: "snippet_lines (snippet_of (normalize_record p)) = Inr ab" and
    ls: "ls = [''@'' @ e @ ''{'' @
                   bibtex_key (strip_braces t) (year_of (normalize_record p)) (strip_braces a) i @ '','',
                 ''  title = {'' @ strip_braces t @ ''},'',
                 ''  author = {'' @ strip_braces a @ ''},'',
                 ''  year = {'' @ year_of (normalize_record p) @ ''},'']
                @ venue_lines e (venue_of (normalize_record p))
                @ ab
                @ citations_lines (citations_of (normalize_record p))
                @ link_lines (link_of (normalize_record p))
                @ [''}'']"
    by blast
  from snippet_lines_Inr [OF ab]
  have ab': "(\<not> truthy (snippet_of (normalize_record p)) \<and> ab = []) \<or>
      (truthy (snippet_of (normalize_record p)) \<and> (\<exists>x. ab = [''  abstract = {'' @ x @ ''},'']))"
    by auto
  have cit: "list_ex (prefix ''  note = {'') ls \<longleftrightarrow> truthy (citations_of (normalize_record p))"
    using ab' by (auto simp: ls venue_lines_def citations_lines_def link_lines_def)
  have venue: "list_ex (\<lambda>l. prefix ''  booktitle = {'' l \<or> prefix ''  journal = {'' l) ls
        \<longleftrightarrow> truthy (venue_of (normalize_record p))"
    using ab' by (auto simp: ls venue_lines_def citations_lines_def link_lines_def)
  have abstract: "list_ex (prefix ''  abstract = {'') ls \<longleftrightarrow> truthy (snippet_of (normalize_record p))"
    using ab' by (auto simp: ls venue_lines_def citations_lines_def link_lines_def)
  have url: "list_ex (prefix ''  url = {'') ls \<longleftrightarrow> truthy (link_of (normalize_record p))"
    using ab' by (auto simp: ls venue_lines_def citations_lines_def link_lines_def)
  have cited: "\<forall>l \<in> set ls. prefix ''  note = {'' l \<longrightarrow>
        l = ''  note = {Cited by '' @ str (citations_of (normalize_record p)) @ ''},''"
    using ab' by (auto simp: ls venue_lines_def citations_lines_def link_lines_def split: if_splits)
  from cit venue abstract url cited
  show "(list_ex (prefix ''  note = {'') ls \<longleftrightarrow> truthy (citations_of (normalize_record p))) \<and>
     (list_ex (\<lambda>l. prefix ''  booktitle = {'' l \<or> prefix ''  journal = {'' l) ls
        \<longleftrightarrow> truthy (venue_of (normalize_record p))) \<and>
     (list_ex (prefix ''  abstract = {'') ls \<longleftrightarrow> truthy (snippet_of (normalize_record p))) \<and>
     (list_ex (prefix ''  url = {'') ls \<longleftrightarrow> truthy (link_of (normalize_record p))) \<and>
     (\<forall>l \<in> set ls. prefix ''  note = {'' l \<longrightarrow>
        l = ''  note = {Cited by '' @ str (citations_of (normalize_record p)) @ ''},'')"
    by blast
qed

theorem optional_fields_witness:
  "publication_lines [''title'' \<mapsto> PStr ''T'', ''citations'' \<mapsto> PInt 12, ''venue'' \<mapsto> PStr [],
      ''snippet'' \<mapsto> PStr ''abc'', ''link'' \<mapsto> PStr []] 0 =
     Inr [''@misc{authorn.d.t_0,'', ''  title = {T},'', ''  author = {Unknown Author},'',
          ''  year = {n.d.},'', ''  abstract = {abc},'', ''  note = {Cited by 12},'', ''}''] \<and>
   truthy (citations_of (normalize_record [''title'' \<mapsto> PStr ''T'', ''citations'' \<mapsto> PInt 12,
      ''venue'' \<mapsto> PStr [], ''snippet'' \<mapsto> PStr ''abc'', ''link'' \<mapsto> PStr []])) \<and>
   \<not> truthy (venue_of (normalize_record [''title'' \<mapsto> PStr ''T'', ''citations'' \<mapsto> PInt 12,
      ''venue'' \<mapsto> PStr [], ''snippet'' \<mapsto> PStr ''abc'', ''link'' \<mapsto> PStr []])) \<and>
   truthy (snippet_of (normalize_record [''title'' \<mapsto> PStr ''T'', ''citations'' \<mapsto> PInt 12,
      ''venue'' \<mapsto> PStr [], ''snippet'' \<mapsto> PStr ''abc'', ''link'' \<mapsto> PStr []])) \<and>
   \<not> truthy (link_of (normalize_record [''title'' \<mapsto> PStr ''T'', ''citations'' \<mapsto> PInt 12,
      ''venue'' \<mapsto> PStr [], ''snippet'' \<mapsto> PStr ''abc'', ''link'' \<mapsto> PStr []]))"
proof -
  let ?p = "[''title'' \<mapsto> PStr ''T'', ''citations'' \<mapsto> PInt 12, ''venue'' \<mapsto> PStr [],
      ''snippet'' \<mapsto> PStr ''abc'', ''link'' \<mapsto> PStr []]"
  let ?ls = "[''@misc{authorn.d.t_0,'', ''  title = {T},'', ''  author = {Unknown Author},'',
          ''  year = {n.d.},'', ''  abstract = {abc},'', ''  note = {Cited by 12},'', ''}'']"
  have r: "publication_lines ?p 0 = Inr ?ls"
    by code_simp
  have n: "list_ex (prefix ''  note = {'') ?ls" by simp
  have v: "\<not> list_ex (\<lambda>l. prefix ''  booktitle = {'' l \<or> prefix ''  journal = {'' l) ?ls" by simp
  have s: "list_ex (prefix ''  abstract = {'') ?ls" by simp
  have u: "\<not> list_ex (prefix ''  url = {'') ?ls" by simp
  from optional_fields [of ?p 0 ?ls] r n v s u
  have "truthy (citations_of (normalize_record ?p)) \<and> \<not> truthy (venue_of (normalize_record ?p)) \<and>
      truthy (snippet_of (normalize_record ?p)) \<and> \<not> truthy (link_of (normalize_record ?p))"
    by blast
  with r show ?thesis by blast
qed

section \<open>The run\<close>

lemma convert_loop_eq:
  "convert_loop xs (es, out) =
     (es @ concat (map (\<lambda>(i, p). case publication_to_bibtex p (int i) of
                                     Inr entry \<Rightarrow> [entry] | Inl e \<Rightarrow> []) xs),
      out @ concat (map (\<lambda>(i, p). case publication_to_bibtex p (int i) of
                                      Inr entry \<Rightarrow> [] | Inl e \<Rightarrow> [CouldNotConvert (i + 1) e]) xs))"
proof (induction xs arbitrary: es out)
  case Nil
  show ?case by simp
next
  case (Cons x xs)
  obtain i p where x: "x = (i, p)" by (cases x)
  show ?case
  proof (cases "publication_to_bibtex p (int i)")
    case (Inl e)
    with Cons.IH [of es "out @ [CouldNotConvert (i + 1) e]"] x show ?thesis by simp
  next
    case (Inr entry)
    with Cons.IH [of "es @ [entry]" out] x show ?thesis by simp
  qed
qed

lemma convert_loop_batch:
  "convert_loop (enumerate 0 pubs) ([], out) = (rendered_entries pubs, out @ diagnostics pubs)"
  by (simp add: convert_loop_eq rendered_entries_def diagnostics_def)

lemma enumerate_member: "i < length pubs \<Longrightarrow> (i, pubs ! i) \<in> set (enumerate 0 pubs)"
  by (simp add: in_set_enumerate_eq)

lemma rendered_entries_member:
  assumes "i < length pubs" "publication_to_bibtex (pubs ! i) (int i) = Inr entry"
  shows "entry \<in> set (rendered_entries pubs)"
  unfolding rendered_entries_def set_concat
  using enumerate_member [OF assms(1)] assms(2) by force

lemma diagnostics_member:
  assumes "i < length pubs" "publication_to_bibtex (pubs ! i) (int i) = Inl e"
  shows "CouldNotConvert (i + 1) e \<in> set (diagnostics pubs)"
  unfolding diagnostics_def set_concat
  using enumerate_member [OF assms(1)] assms(2) by force

lemma batch_count: "length (rendered_entries pubs) + length (diagnostics pubs) = length pubs"
proof -
  have "length (concat (map (\<lambda>(i, p). case publication_to_bibtex p (int i) of
                                     Inr entry \<Rightarrow> [entry] | Inl e \<Rightarrow> []) (enumerate n xs))) +
        length (concat (map (\<lambda>(i, p). case publication_to_bibtex p (int i) of
                                      Inr entry \<Rightarrow> [] | Inl e \<Rightarrow> [CouldNotConvert (i + 1) e])
                            (enumerate n xs))) = length xs" for n xs
    by (induction xs arbitrary: n) (auto split: sum.splits)
  then show ?thesis
    by (simp add: rendered_entries_def diagnostics_def)
qed

text \<open>Every entry of a batch stands in the text of the file, as it is.\<close>

lemma sublist_after: "sublist e ys \<Longrightarrow> sublist e (xs @ ys)"
proof -
  assume "sublist e ys"
  then obtain ps ss where "ys = ps @ e @ ss"
    by (auto simp: sublist_def)
  then have "xs @ ys = (xs @ ps) @ e @ ss" by simp
  then show "sublist e (xs @ ys)"
    unfolding sublist_def by blast
qed

lemma sublist_join: "e \<in> set es \<Longrightarrow> sublist e (join sep es)"
proof (induction sep es rule: join.induct)
  case (1 sep)
  then show ?case by simp
next
  case (2 sep x)
  then show ?case by simp
next
  case (3 sep x y ys)
  show ?case
  proof (cases "e = x")
    case True
    then show ?thesis by simp
  next
    case False
    with "3.prems" have "e \<in> set (y # ys)" by simp
    then have "sublist e (join sep (y # ys))" by (rule "3.IH")
    then have "sublist e (x @ sep @ join sep (y # ys))"
      by (intro sublist_after)
    then show ?thesis by simp
  qed
qed

lemma sublist_file_content:
  assumes "e \<in> set es"
  shows "sublist e (file_content a es)"
proof -
  have "file_content a es =
      (''% BibTeX file generated from Google Scholar'' @ [CHR 0x0A] @
       ''% Author: '' @ a @ [CHR 0x0A] @
       ''% Total entries: '' @ str_nat (length es) @ [CHR 0x0A] @
       ''% Generated by: scholar_to_bibtex.py'' @ [CHR 0x0A, CHR 0x0A]) @
      join [CHR 0x0A, CHR 0x0A] es"
    by (simp add: file_content_def)
  moreover have "sublist e (join [CHR 0x0A, CHR 0x0A] es)"
    using assms by (rule sublist_join)
  ultimately show ?thesis
    by (simp only: sublist_after)
qed

text \<open>The run on a batch that is not empty, and on an empty one.\<close>

lemma generate_nonempty:
  assumes "(api_key = Some k \<and> k \<noteq> [] \<and> serp a k m = pubs) \<or>
           ((api_key = None \<or> api_key = Some []) \<and> direct a m = pubs)"
    and "pubs \<noteq> []"
  shows "files (generate_bibtex_file serp direct a f m api_key w) =
           (files w)(f \<mapsto> file_content a (rendered_entries pubs))"
    and "printed (generate_bibtex_file serp direct a f m api_key w) =
           printed w @ [Banner] @ (if api_key = Some k \<and> k \<noteq> [] then [] else [NoKeyNotice]) @
           [Found (length pubs)] @ diagnostics pubs @ [Generated (length (rendered_entries pubs)) f]"
  using assms
  by (auto simp: generate_bibtex_file_def convert_loop_batch Let_def split: option.splits)

lemma generate_empty:
  assumes "(api_key = Some k \<and> k \<noteq> [] \<and> serp a k m = []) \<or>
           ((api_key = None \<or> api_key = Some []) \<and> direct a m = [])"
  shows "generate_bibtex_file serp direct a f m api_key w =
           w\<lparr>printed := printed w @ [Banner] @
                (if api_key = Some k \<and> k \<noteq> [] then [] else [NoKeyNotice]) @ [NoPublicationsFound]\<rparr>"
  using assms
  by (auto simp: generate_bibtex_file_def Let_def split: option.splits)

text \<open>
  C8: a record whose rendering fails is skipped with a diagnostic, and the run goes on:
  the file is written, the entry of every record that renders, rendered at its own
  position, stands in the text of the file, the diagnostic of every record that fails is
  printed, and every record gives either an entry or a diagnostic.
\<close>

theorem conversion_failures_isolated:
  "((api_key = Some k \<and> k \<noteq> [] \<and> serp a k m = pubs) \<or>
    ((api_key = None \<or> api_key = Some []) \<and> direct a m = pubs)) \<and> pubs \<noteq> [] \<longrightarrow>
   files (generate_bibtex_file serp direct a f m api_key w) f =
     Some (file_content a (rendered_entries pubs)) \<and>
   (\<forall>i entry. i < length pubs \<and> publication_to_bibtex (pubs ! i) (int i) = Inr entry \<longrightarrow>
      entry \<in> set (rendered_entries pubs) \<and>
      (\<exists>c. files (generate_bibtex_file serp direct a f m api_key w) f = Some c \<and> sublist entry c)) \<and>
   (\<forall>i e. i < length pubs \<and> publication_to_bibtex (pubs ! i) (int i) = Inl e \<longrightarrow>
      CouldNotConvert (i + 1) e \<in> set (printed (generate_bibtex_file serp direct a f m api_key w))) \<and>
   length (rendered_entries pubs) + length (diagnostics pubs) = length pubs \<and>
   file_content a (rendered_entries pubs) =
     ''% BibTeX file generated from Google Scholar'' @ [CHR 0x0A] @
     ''% Author: '' @ a @ [CHR 0x0A] @
     ''% Total entries: '' @ str_nat (length (rendered_entries pubs)) @ [CHR 0x0A] @
     ''% Generated by: scholar_to_bibtex.py'' @ [CHR 0x0A, CHR 0x0A] @
     join [CHR 0x0A, CHR 0x0A] (rendered_entries pubs)"
proof
  assume h: "((api_key = Some k \<and> k \<noteq> [] \<and> serp a k m = pubs) \<or>
    ((api_key = None \<or> api_key = Some []) \<and> direct a m = pubs)) \<and> pubs \<noteq> []"
  then have acq: "(api_key = Some k \<and> k \<noteq> [] \<and> serp a k m = pubs) \<or>
    ((api_key = None \<or> api_key = Some []) \<and> direct a m = pubs)" and ne: "pubs \<noteq> []"
    by blast+
  have written: "files (generate_bibtex_file serp direct a f m api_key w) f =
     Some (file_content a (rendered_entries pubs))"
    by (simp add: generate_nonempty(1) [where serp = serp and direct = direct and a = a and m = m and k = k, OF acq ne])
  have kept: "\<forall>i entry. i < length pubs \<and> publication_to_bibtex (pubs ! i) (int i) = Inr entry \<longrightarrow>
      entry \<in> set (rendered_entries pubs) \<and>
      (\<exists>c. files (generate_bibtex_file serp direct a f m api_key w) f = Some c \<and> sublist entry c)"
    using rendered_entries_member sublist_file_content written by blast
  have reported: "\<forall>i e. i < length pubs \<and> publication_to_bibtex (pubs ! i) (int i) = Inl e \<longrightarrow>
      CouldNotConvert (i + 1) e \<in> set (printed (generate_bibtex_file serp direct a f m api_key w))"
    using diagnostics_member by (simp add: generate_nonempty(2) [where serp = serp and direct = direct and a = a and m = m and k = k, OF acq ne])
  have content: "file_content a (rendered_entries pubs) =
     ''% BibTeX file generated from Google Scholar'' @ [CHR 0x0A] @
     ''% Author: '' @ a @ [CHR 0x0A] @
     ''% Total entries: '' @ str_nat (length (rendered_entries pubs)) @ [CHR 0x0A] @
     ''% Generated by: scholar_to_bibtex.py'' @ [CHR 0x0A, CHR 0x0A] @
     join [CHR 0x0A, CHR 0x0A] (rendered_entries pubs)"
    by (simp add: file_content_def)
  from written kept reported batch_count content
  show "files (generate_bibtex_file serp direct a f m api_key w) f =
     Some (file_content a (rendered_entries pubs)) \<and>
   (\<forall>i entry. i < length pubs \<and> publication_to_bibtex (pubs ! i) (int i) = Inr entry \<longrightarrow>
      entry \<in> set (rendered_entries pubs) \<and>
      (\<exists>c. files (generate_bibtex_file serp direct a f m api_key w) f = Some c \<and> sublist entry c)) \<and>
   (\<forall>i e. i < length pubs \<and> publication_to_bibtex (pubs ! i) (int i) = Inl e \<longrightarrow>
      CouldNotConvert (i + 1) e \<in> set (printed (generate_bibtex_file serp direct a f m api_key w))) \<and>
   length (rendered_entries pubs) + length (diagnostics pubs) = length pubs \<and>
   file_content a (rendered_entries pubs) =
     ''% BibTeX file generated from Google Scholar'' @ [CHR 0x0A] @
     ''% Author: '' @ a @ [CHR 0x0A] @
     ''% Total entries: '' @ str_nat (length (rendered_entries pubs)) @ [CHR 0x0A] @
     ''% Generated by: scholar_to_bibtex.py'' @ [CHR 0x0A, CHR 0x0A] @
     join [CHR 0x0A, CHR 0x0A] (rendered_entries pubs)"
    by blast
qed

theorem conversion_failures_isolated_witness:
  "publication_to_bibtex [''title'' \<mapsto> PInt 7] 1 = Inl (AttributeError ''replace'') \<and>
   publication_to_bibtex [''title'' \<mapsto> PStr ''B''] 2 =
     Inr ''@misc{authorn.d.b_2,\<newline>  title = {B},\<newline>  author = {Unknown Author},\<newline>  year = {n.d.},\<newline>}'' \<and>
   files (generate_bibtex_file (\<lambda>a k m. [])
            (\<lambda>a m. [[''title'' \<mapsto> PStr ''A''], [''title'' \<mapsto> PInt 7], [''title'' \<mapsto> PStr ''B'']])
            ''X'' ''out.bib'' 100 None \<lparr>printed = [], files = Map.empty\<rparr>) ''out.bib'' =
     Some (''% BibTeX file generated from Google Scholar\<newline>'' @
           ''% Author: X\<newline>'' @
           ''% Total entries: 2\<newline>'' @
           ''% Generated by: scholar_to_bibtex.py\<newline>\<newline>'' @
           ''@misc{authorn.d.a_0,\<newline>  title = {A},\<newline>  author = {Unknown Author},\<newline>  year = {n.d.},\<newline>}'' @
           ''\<newline>\<newline>'' @
           ''@misc{authorn.d.b_2,\<newline>  title = {B},\<newline>  author = {Unknown Author},\<newline>  year = {n.d.},\<newline>}'') \<and>
   (\<exists>c. files (generate_bibtex_file (\<lambda>a k m. [])
            (\<lambda>a m. [[''title'' \<mapsto> PStr ''A''], [''title'' \<mapsto> PInt 7], [''title'' \<mapsto> PStr ''B'']])
            ''X'' ''out.bib'' 100 None \<lparr>printed = [], files = Map.empty\<rparr>) ''out.bib'' = Some c \<and>
        sublist ''@misc{authorn.d.b_2,\<newline>  title = {B},\<newline>  author = {Unknown Author},\<newline>  year = {n.d.},\<newline>}'' c) \<and>
   CouldNotConvert 2 (AttributeError ''replace'') \<in>
     set (printed (generate_bibtex_file (\<lambda>a k m. [])
            (\<lambda>a m. [[''title'' \<mapsto> PStr ''A''], [''title'' \<mapsto> PInt 7], [''title'' \<mapsto> PStr ''B'']])
            ''X'' ''out.bib'' 100 None \<lparr>printed = [], files = Map.empty\<rparr>))"
proof -
  let ?pubs = "[[''title'' \<mapsto> PStr ''A''], [''title'' \<mapsto> PInt 7], [''title'' \<mapsto> PStr ''B'']]"
  let ?run = "generate_bibtex_file (\<lambda>a k m. []) (\<lambda>a m. ?pubs)
      ''X'' ''out.bib'' 100 None \<lparr>printed = [], files = Map.empty\<rparr>"
  let ?b = "''@misc{authorn.d.b_2,\<newline>  title = {B},\<newline>  author = {Unknown Author},\<newline>  year = {n.d.},\<newline>}''"
  have bad: "publication_to_bibtex [''title'' \<mapsto> PInt 7] 1 = Inl (AttributeError ''replace'')"
    by code_simp
  have good: "publication_to_bibtex [''title'' \<mapsto> PStr ''B''] 2 = Inr ?b"
    by code_simp
  have body: "file_content ''X'' (rendered_entries ?pubs) =
       ''% BibTeX file generated from Google Scholar\<newline>'' @
       ''% Author: X\<newline>'' @
       ''% Total entries: 2\<newline>'' @
       ''% Generated by: scholar_to_bibtex.py\<newline>\<newline>'' @
       ''@misc{authorn.d.a_0,\<newline>  title = {A},\<newline>  author = {Unknown Author},\<newline>  year = {n.d.},\<newline>}'' @
       ''\<newline>\<newline>'' @ ?b"
    by code_simp
  have hyp: "((None = Some [] \<and> [] \<noteq> [] \<and> (\<lambda>a k m. []) ''X'' [] 100 = ?pubs) \<or>
      (((None :: string option) = None \<or> None = Some []) \<and> (\<lambda>a m. ?pubs) ''X'' 100 = ?pubs)) \<and>
      ?pubs \<noteq> []"
    by simp
  from conversion_failures_isolated [of None "[]" "\<lambda>a k m. []" "''X''" 100 ?pubs "\<lambda>a m. ?pubs"
      "''out.bib''" "\<lparr>printed = [], files = Map.empty\<rparr>"] hyp
  have c: "files ?run ''out.bib'' = Some (file_content ''X'' (rendered_entries ?pubs)) \<and>
   (\<forall>i entry. i < length ?pubs \<and> publication_to_bibtex (?pubs ! i) (int i) = Inr entry \<longrightarrow>
      entry \<in> set (rendered_entries ?pubs) \<and>
      (\<exists>c. files ?run ''out.bib'' = Some c \<and> sublist entry c)) \<and>
   (\<forall>i e. i < length ?pubs \<and> publication_to_bibtex (?pubs ! i) (int i) = Inl e \<longrightarrow>
      CouldNotConvert (i + 1) e \<in> set (printed ?run))"
    by blast
  then have w: "files ?run ''out.bib'' = Some (file_content ''X'' (rendered_entries ?pubs))"
    by (rule conjunct1)
  from c have "2 < length ?pubs \<and> publication_to_bibtex (?pubs ! 2) (int 2) = Inr ?b \<longrightarrow>
      (\<exists>c. files ?run ''out.bib'' = Some c \<and> sublist ?b c)"
    by blast
  with good have inc: "\<exists>c. files ?run ''out.bib'' = Some c \<and> sublist ?b c"
    by simp
  from c have "1 < length ?pubs \<and> publication_to_bibtex (?pubs ! 1) (int 1) = Inl (AttributeError ''replace'') \<longrightarrow>
      CouldNotConvert (1 + 1) (AttributeError ''replace'') \<in> set (printed ?run)"
    by blast
  with bad have d: "CouldNotConvert 2 (AttributeError ''replace'') \<in> set (printed ?run)"
    by (simp add: numeral_2_eq_2)
  from w body have w': "files ?run ''out.bib'' =
     Some (''% BibTeX file generated from Google Scholar\<newline>'' @
           ''% Author: X\<newline>'' @
           ''% Total entries: 2\<newline>'' @
           ''% Generated by: scholar_to_bibtex.py\<newline>\<newline>'' @
           ''@misc{authorn.d.a_0,\<newline>  title = {A},\<newline>  author = {Unknown Author},\<newline>  year = {n.d.},\<newline>}'' @
           ''\<newline>\<newline>'' @ ?b)"
    by (simp only:)
  from bad good w' inc d show ?thesis by blast
qed

section \<open>The empty result\<close>

text \<open>
  C9: when the search returns no publication, the run prints the guidance message and
  returns; the files are as they were before, so no output file is written.
\<close>

theorem empty_result_no_file:
  "(api_key = Some k \<and> k \<noteq> [] \<and> serp a k m = []) \<or>
   ((api_key = None \<or> api_key = Some []) \<and> direct a m = []) \<longrightarrow>
   files (generate_bibtex_file serp direct a f m api_key w) = files w \<and>
   printed (generate_bibtex_file serp direct a f m api_key w) =
     printed w @ [Banner] @ (if api_key = Some k \<and> k \<noteq> [] then [] else [NoKeyNotice]) @
     [NoPublicationsFound]"
proof
  assume "(api_key = Some k \<and> k \<noteq> [] \<and> serp a k m = []) \<or>
   ((api_key = None \<or> api_key = Some []) \<and> direct a m = [])"
  from generate_empty [where serp = serp and direct = direct and a = a and m = m and k = k and f = f and w = w, OF this]
  show "files (generate_bibtex_file serp direct a f m api_key w) = files w \<and>
   printed (generate_bibtex_file serp direct a f m api_key w) =
     printed w @ [Banner] @ (if api_key = Some k \<and> k \<noteq> [] then [] else [NoKeyNotice]) @
     [NoPublicationsFound]"
    by simp
qed

theorem empty_result_no_file_witness:
  "files (generate_bibtex_file (\<lambda>a k m. []) (\<lambda>a m. [[''title'' \<mapsto> PStr ''A'']])
      ''X'' ''out.bib'' 100 (Some ''key'') \<lparr>printed = [], files = Map.empty\<rparr>) ''out.bib'' = None \<and>
   printed (generate_bibtex_file (\<lambda>a k m. []) (\<lambda>a m. [[''title'' \<mapsto> PStr ''A'']])
      ''X'' ''out.bib'' 100 (Some ''key'') \<lparr>printed = [], files = Map.empty\<rparr>) =
     [Banner, NoPublicationsFound] \<and>
   printed (generate_bibtex_file (\<lambda>a k m. [[''title'' \<mapsto> PStr ''A'']]) (\<lambda>a m. [])
      ''X'' ''out.bib'' 100 None \<lparr>printed = [], files = Map.empty\<rparr>) =
     [Banner, NoKeyNotice, NoPublicationsFound]"
proof -
  have h1: "(Some ''key'' = Some ''key'' \<and> ''key'' \<noteq> [] \<and> (\<lambda>a k m. []) ''X'' ''key'' (100::nat) = ([] :: pub list)) \<or>
      ((Some ''key'' = None \<or> Some ''key'' = Some []) \<and>
        (\<lambda>a m. [[''title'' \<mapsto> PStr ''A'']]) ''X'' (100::nat) = [])"
    by simp
  have h2: "((None :: string option) = Some [] \<and> [] \<noteq> [] \<and>
        (\<lambda>a k m. [[''title'' \<mapsto> PStr ''A'']]) ''X'' [] (100::nat) = []) \<or>
      (((None :: string option) = None \<or> None = Some []) \<and> (\<lambda>a m. []) ''X'' (100::nat) = ([] :: pub list))"
    by simp
  from empty_result_no_file [of "Some ''key''" "''key''" "\<lambda>a k m. []" "''X''" 100
      "\<lambda>a m. [[''title'' \<mapsto> PStr ''A'']]" "''out.bib''" "\<lparr>printed = [], files = Map.empty\<rparr>"] h1
    empty_result_no_file [of None "[]" "\<lambda>a k m. [[''title'' \<mapsto> PStr ''A'']]" "''X''" 100
      "\<lambda>a m. []" "''out.bib''" "\<lparr>printed = [], files = Map.empty\<rparr>"] h2
  show ?thesis by simp
qed

section \<open>Venue fallback\<close>

text \<open>
  C10: when the record has no \<open>venue\<close> key, the venue is the value under \<open>publication\<close>,
  and the empty string when that key is absent too; the entry is the one rendered from
  the record with this value stored under \<open>venue\<close>, so the entry type and the
  booktitle/journal line are computed from it.
\<close>

theorem venue_fallback:
  "p ''venue'' = None \<longrightarrow>
     venue_of (normalize_record p) = (case p ''publication'' of Some v \<Rightarrow> v | None \<Rightarrow> PStr []) \<and>
     publication_lines p i =
       publication_lines (p(''venue'' \<mapsto> (case p ''publication'' of Some v \<Rightarrow> v | None \<Rightarrow> PStr []))) i"
  by (simp add: publication_lines_def normalize_record_def get_def)

theorem venue_fallback_witness:
  "[''title'' \<mapsto> PStr ''T'', ''publication'' \<mapsto> PStr ''Proceedings of Y''] ''venue'' = None \<and>
   venue_of (normalize_record [''title'' \<mapsto> PStr ''T'', ''publication'' \<mapsto> PStr ''Proceedings of Y'']) =
     PStr ''Proceedings of Y'' \<and>
   publication_lines [''title'' \<mapsto> PStr ''T'', ''publication'' \<mapsto> PStr ''Proceedings of Y''] 3 =
     Inr [''@inproceedings{authorn.d.t_3,'', ''  title = {T},'', ''  author = {Unknown Author},'',
          ''  year = {n.d.},'', ''  booktitle = {Proceedings of Y},'', ''}''] \<and>
   venue_of (normalize_record [''title'' \<mapsto> PStr ''T'']) = PStr []"
proof -
  have "publication_lines
      ([''title'' \<mapsto> PStr ''T'', ''publication'' \<mapsto> PStr ''Proceedings of Y'']
        (''venue'' \<mapsto> PStr ''Proceedings of Y'')) 3 =
     Inr [''@inproceedings{authorn.d.t_3,'', ''  title = {T},'', ''  author = {Unknown Author},'',
          ''  year = {n.d.},'', ''  booktitle = {Proceedings of Y},'', ''}'']"
    by code_simp
  with venue_fallback [of "[''title'' \<mapsto> PStr ''T'', ''publication'' \<mapsto> PStr ''Proceedings of Y'']" 3]
    venue_fallback [of "[''title'' \<mapsto> PStr ''T'']" 0]
  show ?thesis by simp
qed

end
